theory Spec2Isabelle
  imports Main "HOL-Library.AList"
begin

section \<open>The INI parser of \<^verbatim>\<open>src/ini_parser.cpp\<close>\<close>

text \<open>
  A shallow embedding of \<^verbatim>\<open>namespace ini\<close>: the helpers of \<^verbatim>\<open>ini::detail\<close>
  (\<^verbatim>\<open>trim\<close>, \<^verbatim>\<open>unescape\<close>, \<^verbatim>\<open>escape\<close>) and the class \<^verbatim>\<open>ini::Parser\<close>
  (\<^verbatim>\<open>load\<close>, \<^verbatim>\<open>get\<close>, \<^verbatim>\<open>set\<close>, \<^verbatim>\<open>save\<close>, \<^verbatim>\<open>data\<close>).
  A \<^verbatim>\<open>std::string\<close> is a \<^typ>\<open>string\<close> (a list of bytes).
\<close>

subsection \<open>Characters\<close>

abbreviation dquote :: char where "dquote \<equiv> CHR 0x22"
abbreviation squote :: char where "squote \<equiv> CHR 0x27"
abbreviation backslash :: char where "backslash \<equiv> CHR 0x5C"
abbreviation newline :: char where "newline \<equiv> CHR 0x0A"
abbreviation tab :: char where "tab \<equiv> CHR 0x09"
abbreviation carriage_return :: char where "carriage_return \<equiv> CHR 0x0D"

text \<open>
  \<^verbatim>\<open>std::isspace\<close> in the "C" locale (the program never changes the locale): space,
  and the five control characters \<^verbatim>\<open>\t \n \v \f \r\<close>.
\<close>

definition isspace :: "char \<Rightarrow> bool" where
  "isspace ch \<longleftrightarrow>
     ch = CHR '' '' \<or> ch = tab \<or> ch = newline \<or> ch = CHR 0x0B \<or> ch = CHR 0x0C
     \<or> ch = carriage_return"

subsection \<open>\<^verbatim>\<open>ini::detail\<close>\<close>

text \<open>
  \<^verbatim>\<open>trim\<close> (lines 13-20): erase up to the first character that is not a space, then erase
  from behind the last character that is not a space.
\<close>

definition trim :: "string \<Rightarrow> string" where
  "trim s = rev (dropWhile isspace (rev (dropWhile isspace s)))"

text \<open>
  \<^verbatim>\<open>unescape\<close> (lines 22-45). The \<^verbatim>\<open>switch\<close> on the character after a backslash is
  \<open>unescape_char\<close>; the \<^verbatim>\<open>for\<close> loop is \<open>unescape_loop\<close>, which carries the flag
  \<^verbatim>\<open>escaped\<close> and the \<^verbatim>\<open>result\<close> built so far and returns both as they are
  when the loop ends. \<^verbatim>\<open>unescape\<close> returns \<^verbatim>\<open>result\<close>.
\<close>

definition unescape_char :: "char \<Rightarrow> char" where
  "unescape_char c =
     (if c = dquote then dquote
      else if c = squote then squote
      else if c = backslash then backslash
      else if c = CHR ''n'' then newline
      else if c = CHR ''t'' then tab
      else if c = CHR ''r'' then carriage_return
      else c)"

fun unescape_loop :: "string \<Rightarrow> bool \<Rightarrow> string \<Rightarrow> bool \<times> string" where
  "unescape_loop [] escaped result = (escaped, result)"
| "unescape_loop (c # s) escaped result =
     (if escaped then unescape_loop s False (result @ [unescape_char c])
      else if c = backslash then unescape_loop s True result
      else unescape_loop s False (result @ [c]))"

definition unescape :: "string \<Rightarrow> string" where
  "unescape s = snd (unescape_loop s False [])"

text \<open>\<^verbatim>\<open>escape\<close> (lines 47-62): the \<^verbatim>\<open>switch\<close> is \<open>escape_char\<close>.\<close>

definition escape_char :: "char \<Rightarrow> string" where
  "escape_char c =
     (if c = dquote then [backslash, dquote]
      else if c = squote then [backslash, squote]
      else if c = backslash then [backslash, backslash]
      else if c = newline then [backslash, CHR ''n'']
      else if c = tab then [backslash, CHR ''t'']
      else if c = carriage_return then [backslash, CHR ''r'']
      else [c])"

fun escape_loop :: "string \<Rightarrow> string \<Rightarrow> string" where
  "escape_loop [] result = result"
| "escape_loop (c # s) result = escape_loop s (result @ escape_char c)"

definition escape :: "string \<Rightarrow> string" where
  "escape s = escape_loop s []"

subsection \<open>\<^verbatim>\<open>std::string\<close> searches\<close>

text \<open>
  \<^verbatim>\<open>s.find(c)\<close> and \<^verbatim>\<open>s.find_first_of(chars)\<close>: the index of the first
  character of \<open>s\<close> that is \<open>c\<close> (that occurs in \<open>chars\<close>), \<open>None\<close> for
  \<^verbatim>\<open>std::string::npos\<close>. \<^verbatim>\<open>s.substr(pos, n)\<close> is used with \<open>pos \<le> length s\<close>
  only, where it cannot throw.
\<close>

primrec find_first_of :: "string \<Rightarrow> string \<Rightarrow> nat option" where
  "find_first_of [] chars = None"
| "find_first_of (c # s) chars =
     (if c \<in> set chars then Some 0 else map_option Suc (find_first_of s chars))"

definition find_char :: "string \<Rightarrow> char \<Rightarrow> nat option" where
  "find_char s c = find_first_of s [c]"

definition substr :: "string \<Rightarrow> nat \<Rightarrow> nat \<Rightarrow> string" where
  "substr s pos n = take n (drop pos s)"

subsection \<open>\<^verbatim>\<open>ini::Parser\<close>: the data\<close>

datatype ErrorCode =
  Success | FileNotFound | InvalidSection | InvalidLine | EmptyKey | DuplicateKey
  | FileWriteFailed | UnmatchedQuotes

text \<open>
  \<^verbatim>\<open>Section\<close> and \<^verbatim>\<open>Config\<close> are \<^verbatim>\<open>std::unordered_map\<close>s. They are association
  lists here, with the keys distinct, because \<^verbatim>\<open>save\<close> iterates over them: the order of
  the list is the order of iteration. The standard leaves that order open; the model
  keeps an entry where it is when it is overwritten and puts a new entry last
  (\<^const>\<open>AList.update\<close>). The theorems about all documents do not depend on that
  choice; the evaluated examples show documents in the order of the model.
\<close>

type_synonym Section = "(string \<times> string) list"
type_synonym Config = "(string \<times> Section) list"

record Parser =
  config :: Config
  strict_comments :: bool

text \<open>The constructor (line 95); \<^verbatim>\<open>strict_comments\<close> defaults to \<^verbatim>\<open>true\<close>.\<close>

definition new_Parser :: "bool \<Rightarrow> Parser" where
  "new_Parser strict = \<lparr>config = [], strict_comments = strict\<rparr>"

definition default_Parser :: Parser where
  "default_Parser = new_Parser True"

text \<open>
  \<^verbatim>\<open>config[section]\<close> inserts an empty section when there is none: \<open>touch\<close> is that
  effect on the map, \<open>section_ref\<close> the section the expression then denotes.
  \<open>assign\<close> is \<^verbatim>\<open>config[section][key] = value\<close>.
\<close>

definition touch :: "Config \<Rightarrow> string \<Rightarrow> Config" where
  "touch cfg section =
     (case map_of cfg section of None \<Rightarrow> cfg @ [(section, [])] | Some pairs \<Rightarrow> cfg)"

definition section_ref :: "Config \<Rightarrow> string \<Rightarrow> Section" where
  "section_ref cfg section =
     (case map_of cfg section of None \<Rightarrow> [] | Some pairs \<Rightarrow> pairs)"

definition assign :: "Config \<Rightarrow> string \<Rightarrow> string \<Rightarrow> string \<Rightarrow> Config" where
  "assign cfg section key val =
     AList.update section (AList.update key val (section_ref cfg section)) cfg"

text \<open>
  The file system: the content of each file that opens for reading, the paths that open
  for writing, the paths on which every write to the opened file fails, and the number
  of characters a \<^verbatim>\<open>std::ofstream\<close> holds in its buffer before it first writes to
  the file (the standard leaves that number to the implementation).
\<close>

record FileSystem =
  files :: "string \<Rightarrow> string option"
  writable :: "string \<Rightarrow> bool"
  write_fails :: "string \<Rightarrow> bool"
  buffer_size :: nat

subsection \<open>\<^verbatim>\<open>load\<close> (lines 97-163)\<close>

text \<open>
  The repeated \<^verbatim>\<open>std::getline(file, line)\<close>: the lines of the content, split at
  \<^verbatim>\<open>'\n'\<close>. A last line with no newline after it is read when it has a character; at the
  end of the content \<^verbatim>\<open>getline\<close> extracts nothing and the loop ends.
\<close>

fun getlines_from :: "string \<Rightarrow> string \<Rightarrow> string list" where
  "getlines_from line [] = (if line = [] then [] else [line])"
| "getlines_from line (c # content) =
     (if c = newline then line # getlines_from [] content
      else getlines_from (line @ [c]) content)"

definition getlines :: "string \<Rightarrow> string list" where
  "getlines content = getlines_from [] content"

text \<open>
  The scan for the start of a comment (lines 109-122): the \<^verbatim>\<open>for\<close> loop over \<open>i\<close>
  with the two quote flags; \<open>Some i\<close> is \<^verbatim>\<open>commentPos = i; break\<close>, \<open>None\<close> is the end
  of the loop with \<^verbatim>\<open>commentPos == npos\<close>.
\<close>

function scan_comment :: "bool \<Rightarrow> string \<Rightarrow> nat \<Rightarrow> bool \<Rightarrow> bool \<Rightarrow> nat option" where
  "scan_comment strict line i inside_single_quote inside_double_quote =
     (if i < length line then
        (let ch = line ! i;
             inside_double_quote' =
               (if ch = dquote \<and> \<not> inside_single_quote then \<not> inside_double_quote
                else inside_double_quote);
             inside_single_quote' =
               (if ch = dquote \<and> \<not> inside_single_quote then inside_single_quote
                else if ch = squote \<and> \<not> inside_double_quote then \<not> inside_single_quote
                else inside_single_quote)
         in if (ch = CHR '';'' \<or> ch = CHR ''#'') \<and> \<not> inside_single_quote'
               \<and> \<not> inside_double_quote'
            then
              (if strict \<and> 0 < i \<and> \<not> isspace (line ! (i - 1))
               then scan_comment strict line (i + 1) inside_single_quote' inside_double_quote'
               else Some i)
            else scan_comment strict line (i + 1) inside_single_quote' inside_double_quote')
      else None)"
  by pat_completeness auto
termination
  by (relation "measure (\<lambda>(strict, line, i, sq, dq). length line - i)") auto

declare scan_comment.simps [simp del]

text \<open>Lines 109-127: the line with its comment cut off and trimmed again.\<close>

definition strip_comment :: "bool \<Rightarrow> string \<Rightarrow> string" where
  "strip_comment strict line =
     (case scan_comment strict line 0 False False of
        None \<Rightarrow> line
      | Some commentPos \<Rightarrow> trim (substr line 0 commentPos))"

text \<open>
  Lines 106-129: the line trimmed and freed of its comment, or \<open>None\<close> when the loop
  goes on to the next line (\<^verbatim>\<open>continue\<close>) because nothing is left.
\<close>

definition logical_line :: "bool \<Rightarrow> string \<Rightarrow> string option" where
  "logical_line strict raw =
     (let line = trim raw in
      if line = [] \<or> hd line = CHR '';'' \<or> hd line = CHR ''#'' then None
      else
        let line = strip_comment strict line in
        if line = [] then None else Some line)"

text \<open>
  What the loop body makes of one line before it touches the document (lines 106-152):
  nothing (\<^verbatim>\<open>continue\<close>), a new current section, a key with its decoded value, or an
  error to return. \<open>key_value\<close> is lines 144-152, on the trimmed key and the trimmed text
  after the separator.
\<close>

datatype line_kind =
  Blank | SectionHeader string | KeyValue string string | Malformed ErrorCode

definition key_value :: "string \<Rightarrow> string \<Rightarrow> line_kind" where
  "key_value key val =
     (if key = [] then Malformed EmptyKey
      else if 1 \<le> length val \<and> (hd val = dquote \<or> hd val = squote) then
        (let quote = hd val in
         if length val < 2 \<or> last val \<noteq> quote then Malformed UnmatchedQuotes
         else KeyValue key (unescape (substr val 1 (length val - 2))))
      else KeyValue key val)"

text \<open>The test of line 131, on a line that is not empty.\<close>

definition section_header :: "string \<Rightarrow> bool" where
  "section_header line \<longleftrightarrow> hd line = CHR ''['' \<and> last line = CHR '']''"

definition classify :: "bool \<Rightarrow> string \<Rightarrow> line_kind" where
  "classify strict raw =
     (case logical_line strict raw of
        None \<Rightarrow> Blank
      | Some line \<Rightarrow>
          if section_header line then
            (let currentSection = trim (substr line 1 (length line - 2)) in
             if currentSection = [] then Malformed InvalidSection
             else SectionHeader currentSection)
          else
            (case find_char line CHR ''='' of
               None \<Rightarrow> Malformed InvalidLine
             | Some pos \<Rightarrow>
                 key_value (trim (substr line 0 pos)) (trim (drop (pos + 1) line))))"

text \<open>
  The loop body on the state of the loop, the document and \<^verbatim>\<open>currentSection\<close>
  (lines 106-159): \<open>Inl\<close> is a \<^verbatim>\<open>return\<close> with the error and the document as it is left,
  \<open>Inr\<close> the state for the next line. Lines 154-158 are the duplicate check and the
  assignment.
\<close>

definition load_line ::
  "bool \<Rightarrow> Config \<times> string \<Rightarrow> string \<Rightarrow> ErrorCode \<times> Config + Config \<times> string" where
  "load_line strict st raw =
     (case st of (cfg, currentSection) \<Rightarrow>
       (case classify strict raw of
          Blank \<Rightarrow> Inr (cfg, currentSection)
        | SectionHeader name \<Rightarrow> Inr (cfg, name)
        | Malformed err \<Rightarrow> Inl (err, cfg)
        | KeyValue key val \<Rightarrow>
            (let cfg' = touch cfg currentSection in
             if map_of (section_ref cfg' currentSection) key \<noteq> None
             then Inl (DuplicateKey, cfg')
             else Inr (assign cfg' currentSection key val, currentSection))))"

fun load_loop ::
  "bool \<Rightarrow> Config \<times> string \<Rightarrow> string list \<Rightarrow> ErrorCode \<times> Config + Config \<times> string" where
  "load_loop strict st [] = Inr st"
| "load_loop strict st (raw # rest) =
     (case load_line strict st raw of
        Inl failure \<Rightarrow> Inl failure
      | Inr st' \<Rightarrow> load_loop strict st' rest)"

definition load :: "string \<Rightarrow> FileSystem \<Rightarrow> Parser \<Rightarrow> ErrorCode \<times> Parser" where
  "load filename fs p =
     (case files fs filename of
        None \<Rightarrow> (FileNotFound, p)
      | Some content \<Rightarrow>
          (case load_loop (strict_comments p) ([], []) (getlines content) of
             Inl (err, cfg) \<Rightarrow> (err, p\<lparr>config := cfg\<rparr>)
           | Inr (cfg, currentSection) \<Rightarrow> (Success, p\<lparr>config := cfg\<rparr>)))"

subsection \<open>\<^verbatim>\<open>get\<close>, \<^verbatim>\<open>set\<close>, \<^verbatim>\<open>save\<close>, \<^verbatim>\<open>data\<close> (lines 165-229)\<close>

definition get :: "Parser \<Rightarrow> string \<Rightarrow> string \<Rightarrow> string \<Rightarrow> string" where
  "get p section key defaultValue =
     (case map_of (config p) section of
        None \<Rightarrow> defaultValue
      | Some pairs \<Rightarrow>
          (case map_of pairs key of None \<Rightarrow> defaultValue | Some val \<Rightarrow> val))"

definition set_value :: "string \<Rightarrow> string \<Rightarrow> string \<Rightarrow> Parser \<Rightarrow> ErrorCode \<times> Parser" where
  "set_value section key val p =
     (let trimmedKey = trim key in
      if trimmedKey = [] then (EmptyKey, p)
      else
        let trimmedSection = trim section in
        if find_first_of trimmedSection ''[]'' \<noteq> None then (InvalidSection, p)
        else (Success, p\<lparr>config := assign (config p) trimmedSection trimmedKey val\<rparr>))"

definition needsQuotes :: "string \<Rightarrow> bool" where
  "needsQuotes val \<longleftrightarrow>
     find_first_of val [CHR '' '', CHR '';'', CHR ''#'', dquote, newline, tab, carriage_return]
       \<noteq> None"

text \<open>The text written for one entry of a section (lines 196-203 and 212-219).\<close>

definition write_pair :: "string \<times> string \<Rightarrow> string" where
  "write_pair kv =
     (case kv of (key, val) \<Rightarrow>
        key @ ''='' @ (if needsQuotes val then [dquote] @ escape val @ [dquote] else val)
        @ [newline])"

definition write_section :: "string \<times> Section \<Rightarrow> string" where
  "write_section entry =
     (case entry of (section, pairs) \<Rightarrow>
        if section = [] then []
        else ''['' @ section @ '']'' @ [newline] @ concat (map write_pair pairs) @ [newline])"

definition save_text :: "Config \<Rightarrow> string" where
  "save_text cfg =
     (case map_of cfg [] of
        None \<Rightarrow> []
      | Some pairs \<Rightarrow>
          if pairs \<noteq> [] then concat (map write_pair pairs) @ [newline] else [])
     @ concat (map write_section cfg)"

text \<open>
  \<^verbatim>\<open>save\<close> (lines 189-225). The path may not open for writing (line 191). Opening
  empties the file. The text goes through the buffer of the stream, and line 224 tests
  \<^verbatim>\<open>file.fail()\<close> before the stream is closed: on a path where the writes fail, the
  failure shows there only when the text has outgrown the buffer, so that a write to
  the file has been tried; a shorter text is lost when the stream is closed after the
  \<^verbatim>\<open>return\<close>, and \<^verbatim>\<open>save\<close> has returned \<^verbatim>\<open>Success\<close>. In both cases nothing
  reaches the file.
\<close>

definition save :: "string \<Rightarrow> FileSystem \<Rightarrow> Parser \<Rightarrow> ErrorCode \<times> FileSystem" where
  "save filename fs p =
     (if \<not> writable fs filename then (FileWriteFailed, fs)
      else if write_fails fs filename
        then (if buffer_size fs < length (save_text (config p)) then FileWriteFailed
              else Success,
              fs\<lparr>files := (files fs)(filename \<mapsto> [])\<rparr>)
      else (Success, fs\<lparr>files := (files fs)(filename \<mapsto> save_text (config p))\<rparr>))"

definition data :: "Parser \<Rightarrow> Config" where
  "data p = config p"

subsection \<open>Notions of the specification\<close>

text \<open>
  The value stored under a section and a key, if any: what \<^verbatim>\<open>data()\<close> shows of the
  document, as a partial function.
\<close>

definition lookup :: "Config \<Rightarrow> string \<Rightarrow> string \<Rightarrow> string option" where
  "lookup cfg section key = map_of (section_ref cfg section) key"

text \<open>
  Following the specification's words (4.1, step 6, "the first unquoted-context \<^verbatim>\<open>=\<close>"):
  the first position of a character outside single and double quotes, the quote state
  kept as in step 3. The source has no such search; this is what C4 speaks of.
\<close>

fun unquoted_find_from :: "string \<Rightarrow> char \<Rightarrow> nat \<Rightarrow> bool \<Rightarrow> bool \<Rightarrow> nat option" where
  "unquoted_find_from [] c i inside_single inside_double = None"
| "unquoted_find_from (ch # rest) c i inside_single inside_double =
     (let inside_double' =
            (if ch = dquote \<and> \<not> inside_single then \<not> inside_double else inside_double);
          inside_single' =
            (if ch = squote \<and> \<not> inside_double then \<not> inside_single else inside_single)
      in if ch = c \<and> \<not> inside_single' \<and> \<not> inside_double' then Some i
         else unquoted_find_from rest c (i + 1) inside_single' inside_double')"

definition unquoted_find :: "string \<Rightarrow> char \<Rightarrow> nat option" where
  "unquoted_find line c = unquoted_find_from line c 0 False False"

text \<open>
  The sections under which the key-value lines of a file stand: for each line that
  \<^const>\<open>classify\<close> makes a \<^const>\<open>KeyValue\<close>, the section current at that line.
\<close>

fun key_value_sections :: "bool \<Rightarrow> string \<Rightarrow> string list \<Rightarrow> string list" where
  "key_value_sections strict current [] = []"
| "key_value_sections strict current (raw # rest) =
     (case classify strict raw of
        SectionHeader name \<Rightarrow> key_value_sections strict name rest
      | KeyValue key val \<Rightarrow> current # key_value_sections strict current rest
      | Blank \<Rightarrow> key_value_sections strict current rest
      | Malformed err \<Rightarrow> key_value_sections strict current rest)"

text \<open>Sequences of calls on one parser and one file system.\<close>

datatype operation = Load string | Set string string string | Save string

fun apply_op :: "operation \<Rightarrow> FileSystem \<times> Parser \<Rightarrow> FileSystem \<times> Parser" where
  "apply_op (Load filename) (fs, p) = (fs, snd (load filename fs p))"
| "apply_op (Set section key val) (fs, p) = (fs, snd (set_value section key val p))"
| "apply_op (Save filename) (fs, p) = (snd (save filename fs p), p)"

fun run :: "operation list \<Rightarrow> FileSystem \<times> Parser \<Rightarrow> FileSystem \<times> Parser" where
  "run [] state = state"
| "run (op # ops) state = run ops (apply_op op state)"

definition nonempty_sections :: "Config \<Rightarrow> bool" where
  "nonempty_sections cfg \<longleftrightarrow> (\<forall>entry \<in> set cfg. snd entry \<noteq> [])"

text \<open>
  \<^verbatim>\<open>save\<close> to a path, then \<^verbatim>\<open>load\<close> of that path into a fresh parser of the same
  comment mode.
\<close>

definition save_then_load :: "string \<Rightarrow> FileSystem \<Rightarrow> Parser \<Rightarrow> ErrorCode \<times> Parser" where
  "save_then_load filename fs p =
     load filename (snd (save filename fs p)) (new_Parser (strict_comments p))"

section \<open>The escape codec\<close>

lemma unescape_loop_escape_char:
  "unescape_loop (escape_char c @ s) False result = unescape_loop s False (result @ [c])"
  by (simp add: escape_char_def unescape_char_def)

lemma escape_loop_acc: "escape_loop s result = result @ escape_loop s []"
proof (induction s arbitrary: result)
  case Nil
  show ?case by simp
next
  case (Cons c s)
  have "escape_loop (c # s) result = escape_loop s (result @ escape_char c)" by simp
  also have "\<dots> = (result @ escape_char c) @ escape_loop s []" by (rule Cons.IH)
  also have "\<dots> = result @ escape_loop s (escape_char c)"
    using Cons.IH [of "escape_char c"] by simp
  finally show ?case by simp
qed

lemma escape_Cons: "escape (c # s) = escape_char c @ escape s"
  unfolding escape_def using escape_loop_acc [of s "escape_char c"] by simp

lemma unescape_loop_escape:
  "unescape_loop (escape s) False result = (False, result @ s)"
proof (induction s arbitrary: result)
  case Nil
  show ?case by (simp add: escape_def)
next
  case (Cons c s)
  show ?case
    by (simp only: escape_Cons unescape_loop_escape_char Cons.IH) simp
qed

lemma escape_single: "escape [c] = escape_char c"
  by (simp add: escape_def)

lemma escape_map: "escape s = concat (map escape_char s)"
  by (induction s) (simp add: escape_def, simp add: escape_Cons)

lemma escape_concat: "escape s = concat (map (\<lambda>c. escape [c]) s)"
  by (simp add: escape_map)

text \<open>
  C2. Decoding the encoding of any string gives the string back:
  \<^verbatim>\<open>unescape(escape(s)) == s\<close>. The encoding works character by character: each of
  the double quote, the single quote, the backslash, the newline, the tab and the
  carriage return becomes a backslash followed by \<^verbatim>\<open>"\<close>, \<^verbatim>\<open>'\<close>, \<^verbatim>\<open>\\<close>, \<^verbatim>\<open>n\<close>,
  \<^verbatim>\<open>t\<close>, \<^verbatim>\<open>r\<close>, and every other character is passed through. The decoding takes each
  of these six two-character escapes back to its character.
\<close>

theorem unescape_escape:
  "unescape (escape s) = s
   \<and> escape s = concat (map (\<lambda>c. escape [c]) s)
   \<and> escape [dquote] = [backslash, dquote]
   \<and> escape [squote] = [backslash, squote]
   \<and> escape [backslash] = [backslash, backslash]
   \<and> escape [newline] = [backslash, CHR ''n'']
   \<and> escape [tab] = [backslash, CHR ''t'']
   \<and> escape [carriage_return] = [backslash, CHR ''r'']
   \<and> (c \<noteq> dquote \<and> c \<noteq> squote \<and> c \<noteq> backslash \<and> c \<noteq> newline \<and> c \<noteq> tab
        \<and> c \<noteq> carriage_return \<longrightarrow> escape [c] = [c])
   \<and> unescape [backslash, dquote] = [dquote]
   \<and> unescape [backslash, squote] = [squote]
   \<and> unescape [backslash, backslash] = [backslash]
   \<and> unescape [backslash, CHR ''n''] = [newline]
   \<and> unescape [backslash, CHR ''t''] = [tab]
   \<and> unescape [backslash, CHR ''r''] = [carriage_return]"
proof -
  have roundtrip: "unescape (escape s) = s"
    by (simp add: unescape_def unescape_loop_escape)
  have chars: "escape s = concat (map (\<lambda>c. escape [c]) s)"
    by (rule escape_concat)
  have encode: "escape [dquote] = [backslash, dquote]"
    "escape [squote] = [backslash, squote]"
    "escape [backslash] = [backslash, backslash]"
    "escape [newline] = [backslash, CHR ''n'']"
    "escape [tab] = [backslash, CHR ''t'']"
    "escape [carriage_return] = [backslash, CHR ''r'']"
    by (simp_all add: escape_single escape_char_def)
  have other: "c \<noteq> dquote \<and> c \<noteq> squote \<and> c \<noteq> backslash \<and> c \<noteq> newline \<and> c \<noteq> tab
      \<and> c \<noteq> carriage_return \<longrightarrow> escape [c] = [c]"
    by (simp add: escape_single escape_char_def)
  have decode: "unescape [backslash, dquote] = [dquote]"
    "unescape [backslash, squote] = [squote]"
    "unescape [backslash, backslash] = [backslash]"
    "unescape [backslash, CHR ''n''] = [newline]"
    "unescape [backslash, CHR ''t''] = [tab]"
    "unescape [backslash, CHR ''r''] = [carriage_return]"
    by (simp_all add: unescape_def unescape_char_def)
  show ?thesis
    by (intro conjI) (rule roundtrip chars encode other decode)+
qed

theorem unescape_escape_witness:
  "escape (''a b'' @ [dquote, squote, backslash, newline, tab, carriage_return])
     = ''a b'' @ [backslash, dquote, backslash, squote, backslash, backslash,
         backslash, CHR ''n'', backslash, CHR ''t'', backslash, CHR ''r'']
   \<and> unescape (''a b'' @ [backslash, dquote, backslash, squote, backslash, backslash,
         backslash, CHR ''n'', backslash, CHR ''t'', backslash, CHR ''r''])
     = ''a b'' @ [dquote, squote, backslash, newline, tab, carriage_return]
   \<and> escape ''a'' = ''a''"
proof -
  let ?s = "''a b'' @ [dquote, squote, backslash, newline, tab, carriage_return]"
  let ?e = "''a b'' @ [backslash, dquote, backslash, squote, backslash, backslash,
         backslash, CHR ''n'', backslash, CHR ''t'', backslash, CHR ''r'']"
  note table = unescape_escape [of ?s "CHR ''a''"]
  from table have round: "unescape (escape ?s) = ?s"
    by (rule conjunct1)
  from table have chars: "escape ?s = concat (map (\<lambda>c. escape [c]) ?s)"
    by (elim conjE)
  from table have six: "escape [dquote] = [backslash, dquote]
      \<and> escape [squote] = [backslash, squote]
      \<and> escape [backslash] = [backslash, backslash]
      \<and> escape [newline] = [backslash, CHR ''n'']
      \<and> escape [tab] = [backslash, CHR ''t'']
      \<and> escape [carriage_return] = [backslash, CHR ''r'']"
    by blast
  have other: "escape [c] = [c]"
    if "c \<noteq> dquote \<and> c \<noteq> squote \<and> c \<noteq> backslash \<and> c \<noteq> newline \<and> c \<noteq> tab
        \<and> c \<noteq> carriage_return" for c
  proof -
    from unescape_escape [of ?s c]
    have "c \<noteq> dquote \<and> c \<noteq> squote \<and> c \<noteq> backslash \<and> c \<noteq> newline \<and> c \<noteq> tab
        \<and> c \<noteq> carriage_return \<longrightarrow> escape [c] = [c]"
      by (elim conjE)
    with that show ?thesis by (rule rev_mp)
  qed
  have a: "escape ''a'' = ''a''" by (rule other) simp
  have b: "escape ''b'' = ''b''" by (rule other) simp
  have space: "escape '' '' = '' ''" by (rule other) simp
  have "concat (map (\<lambda>c. escape [c]) ?s) = ?e"
    using six a b space by simp
  with chars have enc: "escape ?s = ?e" by (rule trans)
  from round have dec: "unescape ?e = ?s" unfolding enc .
  show ?thesis
    by (intro conjI) (rule enc dec a)+
qed

lemma unescape_loop_append:
  "unescape_loop (s @ t) escaped result =
     (case unescape_loop s escaped result of (escaped', result') \<Rightarrow>
        unescape_loop t escaped' result')"
  by (induction s escaped result rule: unescape_loop.induct) simp_all

text \<open>
  C3, as stated: an input that ends in a single unescaped backslash decodes to a string
  that ends in a backslash. It fails on \<^verbatim>\<open>a\\<close>: the loop ends with \<^verbatim>\<open>escaped\<close> set
  and nothing appended, so the result is \<^verbatim>\<open>a\<close>.
\<close>

theorem unescape_trailing_backslash_counterexample:
  "\<not> fst (unescape_loop ''a'' False [])
   \<and> unescape (''a'' @ [backslash]) = ''a''
   \<and> last (unescape (''a'' @ [backslash])) \<noteq> backslash"
  by (simp add: unescape_def)

text \<open>
  C3, amended: when the input ends in a single unescaped backslash (the text before it
  leaves no escape pending), that backslash is dropped: the result is the decoding of the
  text before it. No error is raised (\<^const>\<open>unescape\<close> has no error to return).
\<close>

theorem unescape_trailing_backslash:
  assumes "\<not> fst (unescape_loop s False [])"
  shows "unescape (s @ [backslash]) = unescape s"
proof -
  obtain result where "unescape_loop s False [] = (False, result)"
    using assms by (cases "unescape_loop s False []") auto
  then show ?thesis
    by (simp add: unescape_def unescape_loop_append)
qed

theorem unescape_trailing_backslash_witness:
  "\<not> fst (unescape_loop ''value'' False [])
   \<and> unescape (''value'' @ [backslash]) = ''value''"
  using unescape_trailing_backslash [of "''value''"] by (simp add: unescape_def)

section \<open>Lines\<close>

lemma find_first_of_None: "find_first_of s chars = None \<longleftrightarrow> set s \<inter> set chars = {}"
  by (induction s) auto

lemma find_char_None: "find_char s c = None \<longleftrightarrow> c \<notin> set s"
  by (simp add: find_char_def find_first_of_None)

lemma find_char_first: "c \<notin> set k \<Longrightarrow> find_char (k @ c # v) c = Some (length k)"
  unfolding find_char_def by (induction k) auto

lemma classify_no_equals:
  assumes "logical_line strict raw = Some line"
    and "\<not> section_header line"
    and "CHR ''='' \<notin> set line"
  shows "classify strict raw = Malformed InvalidLine"
proof -
  have "find_char line CHR ''='' = None"
    using assms(3) by (simp add: find_char_None)
  with assms(1,2) show ?thesis by (simp add: classify_def)
qed

lemma classify_first_equals:
  assumes "logical_line strict raw = Some line"
    and "\<not> section_header line"
    and "line = k @ CHR ''='' # v" and "CHR ''='' \<notin> set k"
  shows "classify strict raw = key_value (trim k) (trim v)"
  using assms by (simp add: classify_def find_char_first substr_def)

text \<open>
  C4, as stated: the separator is the first \<^verbatim>\<open>=\<close> outside quotes, and a line with no
  such \<^verbatim>\<open>=\<close> fails with \<^verbatim>\<open>InvalidLine\<close>. The line \<^verbatim>\<open>x "a=b"\<close> has no \<^verbatim>\<open>=\<close> outside
  quotes, and it loads: the \<^verbatim>\<open>=\<close> inside the quotes is the separator, the key is
  \<^verbatim>\<open>x "a\<close> and the value \<^verbatim>\<open>b"\<close>.
\<close>

theorem split_at_first_equals_counterexample:
  "unquoted_find (''x '' @ [dquote] @ ''a=b'' @ [dquote]) CHR ''='' = None
   \<and> load_line True ([], []) (''x '' @ [dquote] @ ''a=b'' @ [dquote])
       = Inr ([([], [(''x '' @ [dquote] @ ''a'', ''b'' @ [dquote])])], [])"
  by code_simp

text \<open>
  C4, amended: for a logical line that is not a section header, the separator is the
  first \<^verbatim>\<open>=\<close> of the line, inside quotes or not: the key is the trimmed text before it
  and the raw value the trimmed text after it. A line with no \<^verbatim>\<open>=\<close> at all fails with
  \<^verbatim>\<open>InvalidLine\<close>.
\<close>

theorem split_at_first_equals:
  assumes "logical_line strict raw = Some line"
    and "\<not> section_header line"
  shows "(CHR ''='' \<notin> set line \<longrightarrow>
            load_line strict (cfg, current) raw = Inl (InvalidLine, cfg))
    \<and> (\<forall>k v. line = k @ CHR ''='' # v \<and> CHR ''='' \<notin> set k \<longrightarrow>
          classify strict raw = key_value (trim k) (trim v))"
  using assms classify_no_equals [of strict raw line] classify_first_equals [of strict raw line]
  by (auto simp: load_line_def)

theorem split_at_first_equals_witness:
  "logical_line True ''standalone_token'' = Some ''standalone_token''
   \<and> load_line True ([], []) ''standalone_token'' = Inl (InvalidLine, [])
   \<and> logical_line True ([squote] @ ''a=b'' @ [squote] @ ''=c'')
        = Some ([squote, CHR ''a''] @ CHR ''='' # (''b'' @ [squote] @ ''=c''))
   \<and> classify True ([squote] @ ''a=b'' @ [squote] @ ''=c'')
        = KeyValue [squote, CHR ''a''] (''b'' @ [squote] @ ''=c'')"
proof -
  have 1: "logical_line True ''standalone_token'' = Some ''standalone_token''"
    by code_simp
  have 2: "\<not> section_header ''standalone_token''"
    by (simp add: section_header_def)
  let ?l = "[squote] @ ''a=b'' @ [squote] @ ''=c''"
  have 3: "logical_line True ?l = Some ?l" by code_simp
  have 4: "\<not> section_header ?l" by (simp add: section_header_def)
  have 5: "key_value (trim [squote, CHR ''a'']) (trim (''b'' @ [squote] @ ''=c''))
     = KeyValue [squote, CHR ''a''] (''b'' @ [squote] @ ''=c'')"
    by code_simp
  from split_at_first_equals [OF 1 2, of "[]" "[]"]
  have a: "load_line True ([], []) ''standalone_token'' = Inl (InvalidLine, [])" by simp
  from split_at_first_equals [OF 3 4, of "[]" "[]"]
  have "?l = [squote, CHR ''a''] @ CHR ''='' # (''b'' @ [squote] @ ''=c'')
      \<and> CHR ''='' \<notin> set [squote, CHR ''a''] \<longrightarrow>
    classify True ?l = key_value (trim [squote, CHR ''a'']) (trim (''b'' @ [squote] @ ''=c''))"
    by blast
  then have "classify True ?l
      = key_value (trim [squote, CHR ''a'']) (trim (''b'' @ [squote] @ ''=c''))"
    by simp
  with 5 have b: "classify True ?l = KeyValue [squote, CHR ''a''] (''b'' @ [squote] @ ''=c'')"
    by simp
  from 1 a 3 b show ?thesis by simp
qed

lemma classify_strict_tag: "classify True ''key=value#tag'' = KeyValue ''key'' ''value#tag''"
  by code_simp

lemma classify_relaxed_tag: "classify False ''key=value#tag'' = KeyValue ''key'' ''value''"
  by code_simp

text \<open>
  C5. A file that holds the line \<^verbatim>\<open>key=value#tag\<close> loads, in a parser constructed in
  strict mode (the default), with the value \<^verbatim>\<open>value#tag\<close> under \<^verbatim>\<open>key\<close>, and in a
  parser constructed in relaxed mode with the value \<^verbatim>\<open>value\<close>.
\<close>

theorem strict_and_relaxed_comments:
  "load path (fs\<lparr>files := (files fs)(path \<mapsto> ''key=value#tag'')\<rparr>) default_Parser
     = (Success, default_Parser\<lparr>config := [([], [(''key'', ''value#tag'')])]\<rparr>)
   \<and> load path (fs\<lparr>files := (files fs)(path \<mapsto> ''key=value#tag'')\<rparr>) (new_Parser False)
     = (Success, new_Parser False\<lparr>config := [([], [(''key'', ''value'')])]\<rparr>)"
  by (simp add: load_def default_Parser_def new_Parser_def getlines_def load_line_def
      classify_strict_tag classify_relaxed_tag touch_def section_ref_def assign_def)

section \<open>Loading\<close>

text \<open>
  C9. When the path does not open for reading, \<^verbatim>\<open>load\<close> returns \<^verbatim>\<open>FileNotFound\<close> and
  the parser, its document included, is as it was. When the path opens, the document
  held before has no influence on the outcome: it is cleared before the first line is
  read, whatever the parse then does.
\<close>

theorem load_file_not_opened:
  "(files fs filename = None \<longrightarrow> load filename fs p = (FileNotFound, p))
   \<and> (files fs filename \<noteq> None \<longrightarrow>
        (\<forall>cfg. load filename fs (p\<lparr>config := cfg\<rparr>) = load filename fs p))"
  by (auto simp: load_def split: sum.splits prod.splits)

theorem load_file_not_opened_witness:
  "load ''non_existent.ini''
      \<lparr>files = Map.empty, writable = (\<lambda>path. True), write_fails = (\<lambda>path. False),
       buffer_size = 8192\<rparr>
      \<lparr>config = [(''section'', [(''key'', ''old'')])], strict_comments = True\<rparr>
     = (FileNotFound, \<lparr>config = [(''section'', [(''key'', ''old'')])], strict_comments = True\<rparr>)
   \<and> load ''bad.ini''
      \<lparr>files = [''bad.ini'' \<mapsto> ''a=1'' @ [newline] @ ''no separator''],
       writable = (\<lambda>path. True), write_fails = (\<lambda>path. False),
       buffer_size = 8192\<rparr>
      \<lparr>config = [(''section'', [(''key'', ''old'')])], strict_comments = True\<rparr>
     = (InvalidLine, \<lparr>config = [([], [(''a'', ''1'')])], strict_comments = True\<rparr>)"
proof -
  let ?fs1 = "\<lparr>files = Map.empty, writable = (\<lambda>path. True), write_fails = (\<lambda>path. False),
       buffer_size = 8192\<rparr>"
  let ?fs2 = "\<lparr>files = [''bad.ini'' \<mapsto> ''a=1'' @ [newline] @ ''no separator''],
       writable = (\<lambda>path. True), write_fails = (\<lambda>path. False),
       buffer_size = 8192\<rparr>"
  let ?p = "\<lparr>config = [(''section'', [(''key'', ''old'')])], strict_comments = True\<rparr>"
  let ?q = "\<lparr>config = [], strict_comments = True\<rparr>"
  have c1: "classify True ''a=1'' = KeyValue ''a'' ''1''" by code_simp
  have c2: "classify True ''no separator'' = Malformed InvalidLine" by code_simp
  have fresh: "load ''bad.ini'' ?fs2 ?q
      = (InvalidLine, \<lparr>config = [([], [(''a'', ''1'')])], strict_comments = True\<rparr>)"
    by (simp add: load_def getlines_def load_line_def c1 c2 touch_def section_ref_def
        assign_def)
  have "load ''non_existent.ini'' ?fs1 ?p = (FileNotFound, ?p)"
    using load_file_not_opened [of ?fs1 "''non_existent.ini''" ?p] by simp
  moreover have "load ''bad.ini'' ?fs2 (?q\<lparr>config := [(''section'', [(''key'', ''old'')])]\<rparr>)
      = load ''bad.ini'' ?fs2 ?q"
    using load_file_not_opened [of ?fs2 "''bad.ini''" ?q] by simp
  ultimately show ?thesis using fresh by simp
qed

section \<open>Quoted values\<close>

lemma key_value_unmatched:
  assumes "key \<noteq> []" and "val \<noteq> []" and "hd val = dquote \<or> hd val = squote"
  shows "key_value key val =
     (if 2 \<le> length val \<and> last val = hd val
      then KeyValue key (unescape (substr val 1 (length val - 2)))
      else Malformed UnmatchedQuotes)"
  using assms by (cases val) (auto simp: key_value_def Let_def Suc_le_eq)

text \<open>
  C7. On a key-value line (a logical line that is no section header, with a key that is
  not empty before its first \<^verbatim>\<open>=\<close>) whose trimmed raw value begins with a quote
  character: when the value has at least two characters and ends in that same quote
  character, the line is taken with the decoded text between the quotes as its value;
  otherwise \<^verbatim>\<open>load\<close> stops there with \<^verbatim>\<open>UnmatchedQuotes\<close>. The witness is the line
  \<^verbatim>\<open>key="unterminated\<close>.
\<close>

theorem unmatched_quotes:
  assumes "logical_line strict raw = Some line"
    and "\<not> section_header line"
    and "line = k @ CHR ''='' # v" and "CHR ''='' \<notin> set k"
    and "trim k \<noteq> []"
    and "trim v \<noteq> []" and "hd (trim v) = dquote \<or> hd (trim v) = squote"
  shows "if 2 \<le> length (trim v) \<and> last (trim v) = hd (trim v)
     then classify strict raw
        = KeyValue (trim k) (unescape (substr (trim v) 1 (length (trim v) - 2)))
     else load_loop strict (cfg, current) (raw # rest) = Inl (UnmatchedQuotes, cfg)"
proof -
  have "classify strict raw = key_value (trim k) (trim v)"
    using assms(1-4) by (rule classify_first_equals)
  then show ?thesis
    using key_value_unmatched [OF assms(5-7)] by (simp add: load_line_def)
qed

theorem unmatched_quotes_witness:
  "logical_line True (''key='' @ [dquote] @ ''unterminated'')
      = Some (''key'' @ CHR ''='' # ([dquote] @ ''unterminated''))
   \<and> \<not> section_header (''key='' @ [dquote] @ ''unterminated'')
   \<and> CHR ''='' \<notin> set ''key''
   \<and> trim ''key'' = ''key''
   \<and> trim ([dquote] @ ''unterminated'') = [dquote] @ ''unterminated''
   \<and> last ([dquote] @ ''unterminated'') \<noteq> dquote
   \<and> load_loop True ([], []) [''key='' @ [dquote] @ ''unterminated'']
       = Inl (UnmatchedQuotes, [])"
proof -
  let ?raw = "''key='' @ [dquote] @ ''unterminated''"
  let ?v = "[dquote] @ ''unterminated''"
  have 1: "logical_line True ?raw = Some ?raw" by code_simp
  have 2: "\<not> section_header ?raw" by (simp add: section_header_def)
  have 3: "?raw = ''key'' @ CHR ''='' # ?v" by simp
  have 4: "CHR ''='' \<notin> set ''key''" by simp
  have 5: "trim ''key'' = ''key''" by code_simp
  have 6: "trim ?v = ?v" by code_simp
  have 7: "trim ''key'' \<noteq> []" unfolding 5 by simp
  have 8: "trim ?v \<noteq> []" unfolding 6 by simp
  have 9: "hd (trim ?v) = dquote \<or> hd (trim ?v) = squote" unfolding 6 by simp
  have 10: "\<not> (2 \<le> length (trim ?v) \<and> last (trim ?v) = hd (trim ?v))"
    unfolding 6 by simp
  from unmatched_quotes [OF 1 2 3 4 7 8 9, of "[]" "[]" "[]"] 10
  have "load_loop True ([], []) [?raw] = Inl (UnmatchedQuotes, [])"
    by (simp only: if_False)
  with 1 2 4 5 6 show ?thesis by simp
qed

section \<open>The document store\<close>

lemma map_of_touch:
  "map_of (touch cfg s) s' = (if s' = s \<and> map_of cfg s = None then Some [] else map_of cfg s')"
  by (auto simp: touch_def map_add_def split: option.splits)

lemma section_ref_touch: "section_ref (touch cfg s) s' = section_ref cfg s'"
  by (simp add: section_ref_def map_of_touch)

lemma lookup_touch: "lookup (touch cfg s) s' k = lookup cfg s' k"
  by (simp add: lookup_def section_ref_touch)

lemma touch_present: "map_of cfg s \<noteq> None \<Longrightarrow> touch cfg s = cfg"
  by (auto simp: touch_def)

lemma lookup_present: "lookup cfg s k \<noteq> None \<Longrightarrow> map_of cfg s \<noteq> None"
  by (auto simp: lookup_def section_ref_def split: option.splits)

lemma map_of_assign:
  "map_of (assign cfg s k v) = (map_of cfg)(s \<mapsto> AList.update k v (section_ref cfg s))"
  by (simp add: assign_def update_conv')

lemma section_ref_assign:
  "section_ref (assign cfg s k v) s' =
     (if s' = s then AList.update k v (section_ref cfg s) else section_ref cfg s')"
  by (simp add: section_ref_def map_of_assign)

lemma lookup_assign:
  "lookup (assign cfg s k v) s' k' =
     (if s' = s \<and> k' = k then Some v else lookup cfg s' k')"
  by (simp add: lookup_def section_ref_assign update_conv')

lemma dom_assign: "fst ` set (assign cfg s k v) = insert s (fst ` set cfg)"
  by (simp add: assign_def dom_update)

lemma update_append_absent:
  "map_of al k = None \<Longrightarrow> AList.update k v (al @ [(k, w)]) = al @ [(k, v)]"
  by (induction al) (auto split: if_splits)

lemma update_absent: "map_of al k = None \<Longrightarrow> AList.update k v al = al @ [(k, v)]"
  by (induction al) (auto split: if_splits)

lemma assign_touch: "assign (touch cfg s) s k v = assign cfg s k v"
proof (cases "map_of cfg s")
  case None
  have t: "touch cfg s = cfg @ [(s, [])]"
    using None by (simp add: touch_def)
  have "assign (touch cfg s) s k v
      = AList.update s (AList.update k v (section_ref cfg s)) (touch cfg s)"
    by (simp only: assign_def section_ref_touch)
  also have "\<dots> = AList.update s (AList.update k v (section_ref cfg s)) (cfg @ [(s, [])])"
    by (simp only: t)
  also have "\<dots> = cfg @ [(s, AList.update k v (section_ref cfg s))]"
    using None by (rule update_append_absent)
  also have "\<dots> = assign cfg s k v"
    using None by (simp add: assign_def update_absent)
  finally show ?thesis .
next
  case (Some pairs)
  then show ?thesis by (simp add: touch_present)
qed

lemma load_line_key_value:
  assumes "classify strict raw = KeyValue key val"
  shows "load_line strict (cfg, current) raw =
     (if lookup cfg current key \<noteq> None then Inl (DuplicateKey, cfg)
      else Inr (assign cfg current key val, current))"
proof (cases "lookup cfg current key")
  case None
  then show ?thesis
    using assms by (simp add: load_line_def section_ref_touch lookup_def assign_touch)
next
  case (Some old)
  then have "touch cfg current = cfg"
    using lookup_present [of cfg current key] by (simp add: touch_present)
  with Some show ?thesis
    using assms by (simp add: load_line_def lookup_def)
qed

lemma load_line_cases:
  "load_line strict (cfg, current) raw =
     (case classify strict raw of
        Blank \<Rightarrow> Inr (cfg, current)
      | SectionHeader name \<Rightarrow> Inr (cfg, name)
      | Malformed err \<Rightarrow> Inl (err, cfg)
      | KeyValue key val \<Rightarrow>
          if lookup cfg current key \<noteq> None then Inl (DuplicateKey, cfg)
          else Inr (assign cfg current key val, current))"
proof (cases "classify strict raw")
  case (KeyValue key val)
  then show ?thesis using load_line_key_value [OF KeyValue] by simp
qed (simp_all add: load_line_def)

lemma load_loop_append:
  "load_loop strict st (xs @ ys) =
     (case load_loop strict st xs of
        Inl failure \<Rightarrow> Inl failure
      | Inr st' \<Rightarrow> load_loop strict st' ys)"
  by (induction xs arbitrary: st) (auto split: sum.splits)

lemma load_line_keeps:
  assumes "load_line strict (cfg, current) raw = Inr (cfg', current')"
    and "lookup cfg s k \<noteq> None"
  shows "lookup cfg' s k \<noteq> None"
  using assms
  by (auto simp: load_line_cases lookup_assign split: line_kind.splits if_splits)

lemma load_loop_keeps:
  assumes "load_loop strict (cfg, current) lines = Inr (cfg', current')"
    and "lookup cfg s k \<noteq> None"
  shows "lookup cfg' s k \<noteq> None"
  using assms
proof (induction lines arbitrary: cfg current)
  case Nil
  then show ?case by simp
next
  case (Cons raw lines)
  from Cons.prems(1) obtain cfg1 current1
    where step: "load_line strict (cfg, current) raw = Inr (cfg1, current1)"
      and rest: "load_loop strict (cfg1, current1) lines = Inr (cfg', current')"
    by (auto split: sum.splits)
  from load_line_keeps [OF step Cons.prems(2)] have "lookup cfg1 s k \<noteq> None" .
  with Cons.IH [OF rest] show ?case .
qed

text \<open>
  C6. A file assigns a key twice in one section: its lines are \<open>before\<close>, a first
  key-value line with the trimmed key \<open>key\<close> read while \<open>section\<close> is current (the empty
  name is the global section), lines \<open>between\<close> that parse without error and end with
  \<open>section\<close> current again, a second key-value line with the same trimmed key, and any
  \<open>rest\<close>. Then \<^verbatim>\<open>load\<close> returns \<^verbatim>\<open>DuplicateKey\<close>, and the document is the one built
  from the lines before the second occurrence: that line and the rest are not applied,
  whatever the rest holds.
\<close>

theorem duplicate_key_aborts_load:
  assumes opened: "files fs filename = Some content"
    and lines: "getlines content = before @ first # between @ second # rest"
    and before: "load_loop (strict_comments p) ([], []) before = Inr (cfg1, section)"
    and first: "classify (strict_comments p) first = KeyValue key val1"
    and between: "load_loop (strict_comments p) ([], []) (before @ first # between)
                    = Inr (cfg, section)"
    and second: "classify (strict_comments p) second = KeyValue key val2"
  shows "load filename fs p = (DuplicateKey, p\<lparr>config := cfg\<rparr>)"
proof -
  let ?strict = "strict_comments p"
  from between before obtain st
    where step: "load_line ?strict (cfg1, section) first = Inr st"
      and mid: "load_loop ?strict st between = Inr (cfg, section)"
    by (auto simp: load_loop_append split: sum.splits)
  from step first have st: "st = (assign cfg1 section key val1, section)"
    by (auto simp: load_line_key_value split: if_splits)
  have "lookup (assign cfg1 section key val1) section key \<noteq> None"
    by (simp add: lookup_assign)
  with mid st have "lookup cfg section key \<noteq> None"
    using load_loop_keeps by blast
  with second have "load_line ?strict (cfg, section) second = Inl (DuplicateKey, cfg)"
    by (simp add: load_line_key_value)
  then have "load_loop ?strict (cfg, section) (second # rest) = Inl (DuplicateKey, cfg)"
    by simp
  with between
  have "load_loop ?strict ([], []) ((before @ first # between) @ second # rest)
      = Inl (DuplicateKey, cfg)"
    by (simp only: load_loop_append sum.case)
  then show ?thesis
    using opened lines by (simp add: load_def)
qed

theorem duplicate_key_aborts_load_witness:
  "load ''dup.ini''
     \<lparr>files = [''dup.ini'' \<mapsto>
        ''[s]'' @ [newline] @ ''key = first'' @ [newline] @ ''other=1'' @ [newline]
        @ '' key=second'' @ [newline] @ ''more=2'' @ [newline]],
      writable = (\<lambda>path. True), write_fails = (\<lambda>path. False),
       buffer_size = 8192\<rparr>
     default_Parser
   = (DuplicateKey,
      default_Parser\<lparr>config := [(''s'', [(''key'', ''first''), (''other'', ''1'')])]\<rparr>)
   \<and> load ''duplicate.ini''
     \<lparr>files = [''duplicate.ini'' \<mapsto>
        ''key=first'' @ [newline] @ ''key=second'' @ [newline]],
      writable = (\<lambda>path. True), write_fails = (\<lambda>path. False),
       buffer_size = 8192\<rparr>
     default_Parser
   = (DuplicateKey, default_Parser\<lparr>config := [([], [(''key'', ''first'')])]\<rparr>)"
proof -
  let ?content = "''[s]'' @ [newline] @ ''key = first'' @ [newline] @ ''other=1'' @ [newline]
        @ '' key=second'' @ [newline] @ ''more=2'' @ [newline]"
  let ?fs = "\<lparr>files = [''dup.ini'' \<mapsto> ?content],
      writable = (\<lambda>path. True), write_fails = (\<lambda>path. False),
       buffer_size = 8192\<rparr>"
  have opened: "files ?fs ''dup.ini'' = Some ?content" by simp
  have lines: "getlines ?content
      = [''[s]''] @ ''key = first'' # [''other=1''] @ '' key=second'' # [''more=2'']"
    by code_simp
  have before: "load_loop (strict_comments default_Parser) ([], []) [''[s]''] = Inr ([], ''s'')"
    by code_simp
  have first: "classify (strict_comments default_Parser) ''key = first''
      = KeyValue ''key'' ''first''"
    by code_simp
  have between: "load_loop (strict_comments default_Parser) ([], [])
        ([''[s]''] @ ''key = first'' # [''other=1''])
      = Inr ([(''s'', [(''key'', ''first''), (''other'', ''1'')])], ''s'')"
    by code_simp
  have second: "classify (strict_comments default_Parser) '' key=second''
      = KeyValue ''key'' ''second''"
    by code_simp
  let ?global = "''key=first'' @ [newline] @ ''key=second'' @ [newline]"
  let ?gfs = "\<lparr>files = [''duplicate.ini'' \<mapsto> ?global],
      writable = (\<lambda>path. True), write_fails = (\<lambda>path. False),
       buffer_size = 8192\<rparr>"
  have gopened: "files ?gfs ''duplicate.ini'' = Some ?global" by simp
  have glines: "getlines ?global = [] @ ''key=first'' # [] @ ''key=second'' # []"
    by code_simp
  have gbefore: "load_loop (strict_comments default_Parser) ([], []) [] = Inr ([], [])"
    by simp
  have gfirst: "classify (strict_comments default_Parser) ''key=first''
      = KeyValue ''key'' ''first''"
    by code_simp
  have gbetween: "load_loop (strict_comments default_Parser) ([], [])
        ([] @ ''key=first'' # [])
      = Inr ([([], [(''key'', ''first'')])], [])"
    by code_simp
  have gsecond: "classify (strict_comments default_Parser) ''key=second''
      = KeyValue ''key'' ''second''"
    by code_simp
  show ?thesis
    using duplicate_key_aborts_load [OF opened lines before first between second]
      duplicate_key_aborts_load [OF gopened glines gbefore gfirst gbetween gsecond]
    by (rule conjI)
qed

section \<open>Setting values\<close>

text \<open>
  C8. \<^verbatim>\<open>set\<close> trims the key and fails with \<^verbatim>\<open>EmptyKey\<close> when nothing is left;
  otherwise it trims the section name and fails with \<^verbatim>\<open>InvalidSection\<close> when the name
  holds a bracket; in both cases the parser is as it was. Otherwise it succeeds: the
  value is then stored under the trimmed section and key whatever was stored there
  before, every other entry is as it was, and the sections are those there were and the
  trimmed section. It never returns \<^verbatim>\<open>DuplicateKey\<close>.
\<close>

theorem set_value_outcome:
  "(trim key = [] \<longrightarrow> set_value section key val p = (EmptyKey, p))
   \<and> (trim key \<noteq> [] \<and> (CHR ''['' \<in> set (trim section) \<or> CHR '']'' \<in> set (trim section))
        \<longrightarrow> set_value section key val p = (InvalidSection, p))
   \<and> (trim key \<noteq> [] \<and> CHR ''['' \<notin> set (trim section) \<and> CHR '']'' \<notin> set (trim section)
        \<longrightarrow> (\<exists>p'. set_value section key val p = (Success, p')
              \<and> strict_comments p' = strict_comments p
              \<and> lookup (data p') (trim section) (trim key) = Some val
              \<and> (\<forall>s k. (s, k) \<noteq> (trim section, trim key)
                    \<longrightarrow> lookup (data p') s k = lookup (data p) s k)
              \<and> fst ` set (data p') = insert (trim section) (fst ` set (data p))))
   \<and> fst (set_value section key val p) \<noteq> DuplicateKey"
proof -
  have brackets: "find_first_of (trim section) ''[]'' \<noteq> None
      \<longleftrightarrow> CHR ''['' \<in> set (trim section) \<or> CHR '']'' \<in> set (trim section)"
    by (auto simp: find_first_of_None)
  show ?thesis
    unfolding set_value_def Let_def brackets
    by (auto simp: data_def lookup_assign dom_assign)
qed

theorem set_value_outcome_witness:
  "set_value ''section'' '''' ''v'' default_Parser = (EmptyKey, default_Parser)
   \<and> set_value ''[bad]'' ''k'' ''v'' default_Parser = (InvalidSection, default_Parser)
   \<and> get (snd (set_value '' section '' '' key '' ''new''
        \<lparr>config = [(''section'', [(''key'', ''old'')])], strict_comments = True\<rparr>))
        ''section'' ''key'' ''default'' = ''new''"
proof -
  let ?p = "\<lparr>config = [(''section'', [(''key'', ''old'')])], strict_comments = True\<rparr>"
  have t1: "trim '''' = []" by code_simp
  have t2: "trim ''k'' = ''k''" by code_simp
  have t3: "trim ''[bad]'' = ''[bad]''" by code_simp
  have t4: "trim '' key '' = ''key''" by code_simp
  have t5: "trim '' section '' = ''section''" by code_simp
  from set_value_outcome [of "''''" "''section''" "''v''" default_Parser]
  have a: "set_value ''section'' '''' ''v'' default_Parser = (EmptyKey, default_Parser)"
    unfolding t1 by simp
  from set_value_outcome [of "''k''" "''[bad]''" "''v''" default_Parser]
  have b: "set_value ''[bad]'' ''k'' ''v'' default_Parser = (InvalidSection, default_Parser)"
    unfolding t2 t3 by simp
  from set_value_outcome [of "'' key ''" "'' section ''" "''new''" ?p]
  obtain p' where "set_value '' section '' '' key '' ''new'' ?p = (Success, p')"
    and "lookup (data p') ''section'' ''key'' = Some ''new''"
    unfolding t4 t5 by auto
  then have c: "get (snd (set_value '' section '' '' key '' ''new'' ?p))
      ''section'' ''key'' ''default'' = ''new''"
    by (auto simp: get_def lookup_def section_ref_def data_def split: option.splits)
  from a b c show ?thesis by simp
qed

section \<open>Sections are never empty\<close>

lemma update_not_Nil: "AList.update k v al \<noteq> []"
  by (cases al) auto

lemma set_update_cases:
  "e \<in> set (AList.update k v al) \<Longrightarrow> e = (k, v) \<or> e \<in> set al"
  by (induction al) (auto split: if_splits)

lemma nonempty_sections_assign:
  assumes "nonempty_sections cfg"
  shows "nonempty_sections (assign cfg s k v)"
  unfolding nonempty_sections_def
proof
  fix entry
  assume "entry \<in> set (assign cfg s k v)"
  then have "entry = (s, AList.update k v (section_ref cfg s)) \<or> entry \<in> set cfg"
    unfolding assign_def by (rule set_update_cases)
  then show "snd entry \<noteq> []"
    using assms by (auto simp: nonempty_sections_def update_not_Nil)
qed

lemma load_line_nonempty_sections:
  assumes "nonempty_sections cfg"
  shows "case load_line strict (cfg, current) raw of
           Inl (err, cfg') \<Rightarrow> nonempty_sections cfg'
         | Inr (cfg', current') \<Rightarrow> nonempty_sections cfg'"
  using assms
  by (auto simp: load_line_cases nonempty_sections_assign split: line_kind.splits)

lemma load_loop_nonempty_sections:
  assumes "nonempty_sections cfg"
  shows "case load_loop strict (cfg, current) lines of
           Inl (err, cfg') \<Rightarrow> nonempty_sections cfg'
         | Inr (cfg', current') \<Rightarrow> nonempty_sections cfg'"
  using assms
proof (induction lines arbitrary: cfg current)
  case Nil
  then show ?case by simp
next
  case (Cons raw lines)
  show ?case
  proof (cases "load_line strict (cfg, current) raw")
    case (Inl failure)
    with load_line_nonempty_sections [OF Cons.prems, where strict = strict and current = current
        and raw = raw]
    show ?thesis by simp
  next
    case (Inr st)
    obtain cfg1 current1 where st: "st = (cfg1, current1)" by (cases st)
    with Inr load_line_nonempty_sections [OF Cons.prems, where strict = strict and current = current
        and raw = raw]
    have "nonempty_sections cfg1" by simp
    from Cons.IH [OF this, where current = current1] Inr st show ?thesis by simp
  qed
qed

lemma load_nonempty_sections:
  assumes "nonempty_sections (config p)"
  shows "nonempty_sections (config (snd (load filename fs p)))"
proof (cases "files fs filename")
  case None
  with assms show ?thesis by (simp add: load_def)
next
  case (Some content)
  have "nonempty_sections []" by (simp add: nonempty_sections_def)
  from load_loop_nonempty_sections [OF this, where strict = "strict_comments p"
      and current = "[]" and lines = "getlines content"]
  show ?thesis
    using Some by (auto simp: load_def split: sum.splits)
qed

lemma set_value_nonempty_sections:
  assumes "nonempty_sections (config p)"
  shows "nonempty_sections (config (snd (set_value section key val p)))"
  using assms by (simp add: set_value_def Let_def nonempty_sections_assign)

lemma apply_op_nonempty_sections:
  assumes "nonempty_sections (config (snd state))"
  shows "nonempty_sections (config (snd (apply_op op state)))"
  using assms
  by (cases op; cases state)
    (simp_all add: load_nonempty_sections set_value_nonempty_sections)

lemma run_nonempty_sections:
  assumes "nonempty_sections (config (snd state))"
  shows "nonempty_sections (config (snd (run ops state)))"
  using assms
  by (induction ops arbitrary: state) (simp_all add: apply_op_nonempty_sections)

lemma load_line_sections:
  "case load_line strict (cfg, current) raw of
     Inl (err, cfg') \<Rightarrow> fst ` set cfg' \<subseteq> fst ` set cfg
   | Inr (cfg', current') \<Rightarrow>
       fst ` set cfg' \<subseteq> fst ` set cfg \<union> set (key_value_sections strict current [raw])"
  by (auto simp: load_line_cases dom_assign split: line_kind.splits)

lemma key_value_sections_Cons:
  "set (key_value_sections strict current (raw # lines)) =
     set (key_value_sections strict current [raw])
     \<union> (case load_line strict (cfg, current) raw of
          Inl failure \<Rightarrow> set (key_value_sections strict current (raw # lines))
        | Inr (cfg', current') \<Rightarrow> set (key_value_sections strict current' lines))"
  by (auto simp: load_line_cases split: line_kind.splits)

lemma load_loop_sections:
  "case load_loop strict (cfg, current) lines of
     Inl (err, cfg') \<Rightarrow>
       fst ` set cfg' \<subseteq> fst ` set cfg \<union> set (key_value_sections strict current lines)
   | Inr (cfg', current') \<Rightarrow>
       fst ` set cfg' \<subseteq> fst ` set cfg \<union> set (key_value_sections strict current lines)"
proof (induction lines arbitrary: cfg current)
  case Nil
  show ?case by simp
next
  case (Cons raw lines)
  show ?case
  proof (cases "load_line strict (cfg, current) raw")
    case (Inl failure)
    obtain err cfg' where "failure = (err, cfg')" by (cases failure)
    with Inl load_line_sections [where strict = strict and cfg = cfg and current = current and raw = raw]
    show ?thesis by auto
  next
    case (Inr st)
    obtain cfg1 current1 where st: "st = (cfg1, current1)" by (cases st)
    define A where "A = set (key_value_sections strict current [raw])"
    define B where "B = set (key_value_sections strict current1 lines)"
    from Inr st load_line_sections [where strict = strict and cfg = cfg and current = current
        and raw = raw]
    have 1: "fst ` set cfg1 \<subseteq> fst ` set cfg \<union> A"
      unfolding A_def by simp
    from Inr st key_value_sections_Cons [where strict = strict and current = current
        and raw = raw and lines = lines and cfg = cfg]
    have 2: "set (key_value_sections strict current (raw # lines)) = A \<union> B"
      unfolding A_def B_def by simp
    have step: "load_loop strict (cfg, current) (raw # lines)
        = load_loop strict (cfg1, current1) lines"
      using Inr st by simp
    show ?thesis
    proof (cases "load_loop strict (cfg1, current1) lines")
      case (Inl failure)
      obtain err cfg' where failure: "failure = (err, cfg')" by (cases failure)
      from Cons.IH [where cfg = cfg1 and current = current1] Inl failure
      have "fst ` set cfg' \<subseteq> fst ` set cfg1 \<union> B"
        unfolding B_def by simp
      with 1 have "fst ` set cfg' \<subseteq> fst ` set cfg \<union> (A \<union> B)" by blast
      then show ?thesis unfolding step 2 using Inl failure by simp
    next
      case (Inr st')
      obtain cfg' current' where st': "st' = (cfg', current')" by (cases st')
      from Cons.IH [where cfg = cfg1 and current = current1] Inr st'
      have "fst ` set cfg' \<subseteq> fst ` set cfg1 \<union> B"
        unfolding B_def by simp
      with 1 have "fst ` set cfg' \<subseteq> fst ` set cfg \<union> (A \<union> B)" by blast
      then show ?thesis unfolding step 2 using Inr st' by simp
    qed
  qed
qed

text \<open>
  C10. After any sequence of \<^verbatim>\<open>load\<close>, \<^verbatim>\<open>set\<close> and \<^verbatim>\<open>save\<close> calls on a new parser,
  every section of the document \<^verbatim>\<open>data()\<close> shows holds at least one pair. And a
  \<^verbatim>\<open>load\<close> of a file that opens leaves a section in the document only when a key-value
  line of the file stands under it: a header followed by no key-value line before the
  next header or the end of the file gives the document no entry of that name.
\<close>

theorem sections_never_empty:
  "nonempty_sections (data (snd (run ops (fs, new_Parser strict))))
   \<and> (\<forall>filename content name.
        files fs filename = Some content
        \<and> name \<notin> set (key_value_sections (strict_comments p) [] (getlines content))
        \<longrightarrow> map_of (data (snd (load filename fs p))) name = None)"
proof -
  have "nonempty_sections (config (snd (fs, new_Parser strict)))"
    by (simp add: new_Parser_def nonempty_sections_def)
  then have first: "nonempty_sections (data (snd (run ops (fs, new_Parser strict))))"
    unfolding data_def by (rule run_nonempty_sections)
  have second: "map_of (data (snd (load filename fs p))) name = None"
    if "files fs filename = Some content"
      and "name \<notin> set (key_value_sections (strict_comments p) [] (getlines content))"
    for filename content name
  proof -
    from load_loop_sections [where strict = "strict_comments p" and cfg = "[]" and current = "[]"
        and lines = "getlines content"] that
    have "name \<notin> fst ` set (data (snd (load filename fs p)))"
      by (auto simp: load_def data_def split: sum.splits)
    then show ?thesis by (simp add: map_of_eq_None_iff)
  qed
  from first second show ?thesis by blast
qed

theorem sections_never_empty_witness:
  "nonempty_sections (data (snd (run
       [Set [] ''g'' ''1'', Load ''f.ini'', Set ''c'' ''x'' ''y'']
       (\<lparr>files = [''f.ini'' \<mapsto> ''[empty]'' @ [newline] @ ''[b]'' @ [newline] @ ''k=v''],
         writable = (\<lambda>path. True), write_fails = (\<lambda>path. False),
       buffer_size = 8192\<rparr>,
        new_Parser True))))
   \<and> data (snd (run
       [Set [] ''g'' ''1'', Load ''f.ini'', Set ''c'' ''x'' ''y'']
       (\<lparr>files = [''f.ini'' \<mapsto> ''[empty]'' @ [newline] @ ''[b]'' @ [newline] @ ''k=v''],
         writable = (\<lambda>path. True), write_fails = (\<lambda>path. False),
       buffer_size = 8192\<rparr>,
        new_Parser True)))
     = [(''b'', [(''k'', ''v'')]), (''c'', [(''x'', ''y'')])]
   \<and> map_of (data (snd (load ''f.ini''
        \<lparr>files = [''f.ini'' \<mapsto> ''[empty]'' @ [newline] @ ''[b]'' @ [newline] @ ''k=v''],
         writable = (\<lambda>path. True), write_fails = (\<lambda>path. False),
       buffer_size = 8192\<rparr>
        (new_Parser True)))) ''empty'' = None"
proof -
  let ?content = "''[empty]'' @ [newline] @ ''[b]'' @ [newline] @ ''k=v''"
  let ?fs = "\<lparr>files = [''f.ini'' \<mapsto> ?content],
         writable = (\<lambda>path. True), write_fails = (\<lambda>path. False),
       buffer_size = 8192\<rparr>"
  let ?ops = "[Set [] ''g'' ''1'', Load ''f.ini'', Set ''c'' ''x'' ''y'']"
  note inst = sections_never_empty [of ?ops ?fs True "new_Parser True"]
  have opened: "files ?fs ''f.ini'' = Some ?content" by simp
  have absent: "''empty'' \<notin> set (key_value_sections (strict_comments (new_Parser True)) []
      (getlines ?content))"
    by code_simp
  have result: "data (snd (run ?ops (?fs, new_Parser True)))
      = [(''b'', [(''k'', ''v'')]), (''c'', [(''x'', ''y'')])]"
    by code_simp
  from inst have "nonempty_sections (data (snd (run ?ops (?fs, new_Parser True))))"
    by (rule conjunct1)
  moreover from inst opened absent
  have "map_of (data (snd (load ''f.ini'' ?fs (new_Parser True)))) ''empty'' = None"
    by blast
  ultimately show ?thesis using result by simp
qed

section \<open>Saving and loading again\<close>

text \<open>
  C1, evaluated where it fails. On a file system where the path opens and the writes
  succeed, a document built by one successful \<^verbatim>\<open>set\<close> of the global key \<^verbatim>\<open>key\<close> is saved
  and loaded into a fresh parser. The load succeeds each time, and the value comes
  back changed: \<^verbatim>\<open>'a'\<close> comes back as \<^verbatim>\<open>a\<close> (a single quote does not make \<^verbatim>\<open>save\<close> quote
  the value, and \<^verbatim>\<open>load\<close> takes the quotes off); a vertical tab comes back as the empty
  string (written unquoted, trimmed away by \<^verbatim>\<open>load\<close>); \<^verbatim>\<open>a" ;b\<close> comes back as \<^verbatim>\<open>a\<close>
  (the comment scan of \<^verbatim>\<open>load\<close> takes the escaped quote for the end of the quoted text).
\<close>

theorem save_then_load_changes_value:
  "set_value [] ''key'' [squote, CHR ''a'', squote] default_Parser
     = (Success, default_Parser\<lparr>config := [([], [(''key'', [squote, CHR ''a'', squote])])]\<rparr>)
   \<and> save_then_load ''f.ini'' (fs\<lparr>writable := \<lambda>path. True, write_fails := \<lambda>path. False\<rparr>)
        (default_Parser\<lparr>config := [([], [(''key'', [squote, CHR ''a'', squote])])]\<rparr>)
     = (Success, default_Parser\<lparr>config := [([], [(''key'', ''a'')])]\<rparr>)
   \<and> set_value [] ''key'' [CHR 0x0B] default_Parser
     = (Success, default_Parser\<lparr>config := [([], [(''key'', [CHR 0x0B])])]\<rparr>)
   \<and> save_then_load ''f.ini'' (fs\<lparr>writable := \<lambda>path. True, write_fails := \<lambda>path. False\<rparr>)
        (default_Parser\<lparr>config := [([], [(''key'', [CHR 0x0B])])]\<rparr>)
     = (Success, default_Parser\<lparr>config := [([], [(''key'', [])])]\<rparr>)
   \<and> set_value [] ''key'' (''a'' @ [dquote] @ '' ;b'') default_Parser
     = (Success, default_Parser\<lparr>config := [([], [(''key'', ''a'' @ [dquote] @ '' ;b'')])]\<rparr>)
   \<and> save_then_load ''f.ini'' (fs\<lparr>writable := \<lambda>path. True, write_fails := \<lambda>path. False\<rparr>)
        (default_Parser\<lparr>config := [([], [(''key'', ''a'' @ [dquote] @ '' ;b'')])]\<rparr>)
     = (Success, default_Parser\<lparr>config := [([], [(''key'', ''a'')])]\<rparr>)"
proof -
  have trim_empty: "trim [] = []" by code_simp
  have trim_key: "trim ''key'' = ''key''" by code_simp
  have sets:
    "set_value [] ''key'' val default_Parser
       = (Success, default_Parser\<lparr>config := [([], [(''key'', val)])]\<rparr>)" for val
    by (simp add: set_value_def trim_empty trim_key default_Parser_def new_Parser_def
        assign_def section_ref_def)
  have lines1: "getlines (save_text [([], [(''key'', [squote, CHR ''a'', squote])])])
      = [''key='' @ [squote, CHR ''a'', squote], []]"
    by code_simp
  have lines2: "getlines (save_text [([], [(''key'', [CHR 0x0B])])])
      = [''key='' @ [CHR 0x0B], []]"
    by code_simp
  have lines3: "getlines (save_text [([], [(''key'', ''a'' @ [dquote] @ '' ;b'')])])
      = [''key='' @ [dquote] @ ''a'' @ [backslash, dquote] @ '' ;b'' @ [dquote], []]"
    by code_simp
  have loop1: "load_loop True ([], []) [''key='' @ [squote, CHR ''a'', squote], []]
      = Inr ([([], [(''key'', ''a'')])], [])"
    by code_simp
  have loop2: "load_loop True ([], []) [''key='' @ [CHR 0x0B], []]
      = Inr ([([], [(''key'', [])])], [])"
    by code_simp
  have loop3: "load_loop True ([], [])
        [''key='' @ [dquote] @ ''a'' @ [backslash, dquote] @ '' ;b'' @ [dquote], []]
      = Inr ([([], [(''key'', ''a'')])], [])"
    by code_simp
  have roundtrip: "save_then_load ''f.ini''
        (fs\<lparr>writable := \<lambda>path. True, write_fails := \<lambda>path. False\<rparr>)
        (default_Parser\<lparr>config := cfg\<rparr>)
      = (Success, default_Parser\<lparr>config := cfg'\<rparr>)"
    if "load_loop True ([], []) (getlines (save_text cfg)) = Inr (cfg', [])" for cfg cfg'
    using that
    by (simp add: save_then_load_def save_def load_def default_Parser_def new_Parser_def)
  show ?thesis
    using sets roundtrip [of "[([], [(''key'', [squote, CHR ''a'', squote])])]"
        "[([], [(''key'', ''a'')])]"]
      roundtrip [of "[([], [(''key'', [CHR 0x0B])])]" "[([], [(''key'', [])])]"]
      roundtrip [of "[([], [(''key'', ''a'' @ [dquote] @ '' ;b'')])]" "[([], [(''key'', ''a'')])]"]
    unfolding lines1 lines2 lines3 loop1 loop2 loop3
    by simp
qed

end
